theory Spec2Isabelle
  imports Complex_Main "HOL-Library.Word" "HOL-Library.Log_Nat"
begin

section \<open>The Win32 sampler thread of the profiler (platform-win32.cpp)\<close>

text \<open>
  The file drives Win32 and profiler services whose code lives elsewhere
  (\<open>SuspendThread\<close>, \<open>GetThreadContext\<close>, the sample buffer, \<open>Tick\<close>, ...).
  They are parameters of the model: an environment record \<open>'w env\<close> gives, for
  every such call, its result and its effect on an abstract world \<open>'w\<close>.
  Every function of the file becomes a function that threads the world through
  the calls in source order and returns, next to the new world, the list of calls
  it made (with their arguments and results).
\<close>

subsection \<open>Doubles: what \<open>int(floor(aInterval + 0.5))\<close> computes\<close>

text \<open>
  A double is \<open>m * 2^e\<close> with a 53-bit significand, an infinity or a NaN
  (the sign of zero plays no role below and is left out). Addition is exact
  addition followed by rounding to nearest, ties to even. \<open>floor\<close> is exact.
  The conversion to \<open>int\<close> truncates; when the truncated value does not fit
  in 32 bits the C++ conversion has no defined result, which is \<open>None\<close>.
\<close>

datatype double = Finite int int | PlusInf | MinusInf | NaN

fun is_double :: "double \<Rightarrow> bool" where
  "is_double (Finite m e) = (\<bar>m\<bar> < 2 ^ 53 \<and> - 1074 \<le> e \<and> e \<le> 971)"
| "is_double _ = True"

fun is_finite :: "double \<Rightarrow> bool" where
  "is_finite (Finite m e) = True"
| "is_finite _ = False"

text \<open>The real number a finite double stands for.\<close>

fun valof :: "double \<Rightarrow> real" where
  "valof (Finite m e) = of_int m * 2 powi e"
| "valof _ = 0"

text \<open>\<open>a / 2^k\<close> for \<open>a \<ge> 0\<close>, rounded to the nearest integer, a tie to the even one.\<close>

definition round_half_even :: "int \<Rightarrow> nat \<Rightarrow> int" where
  "round_half_even a k =
     (let q = a div 2 ^ k; r = a mod 2 ^ k; h = 2 ^ (k - 1)
      in if r < h \<or> (r = h \<and> even q) then q else q + 1)"

text \<open>The double nearest to \<open>M * 2^E\<close>: the number itself when \<open>M\<close> has at most 53
  bits; otherwise the \<open>k\<close> extra low bits are rounded away, and a result of
  \<open>2^1024\<close> or more is an infinity.\<close>

definition round_to_double :: "int \<Rightarrow> int \<Rightarrow> double" where
  "round_to_double M E =
     (let k = bitlen \<bar>M\<bar> - 53 in
      if k \<le> 0 then Finite M E
      else let q = round_half_even \<bar>M\<bar> (nat k);
               (q, e) = (if q = 2 ^ 53 then (2 ^ 52, E + k + 1) else (q, E + k))
           in if e > 971 then (if M < 0 then MinusInf else PlusInf)
              else Finite (sgn M * q) e)"

text \<open>\<open>x + y\<close> on doubles.\<close>

fun double_add :: "double \<Rightarrow> double \<Rightarrow> double" where
  "double_add (Finite m1 e1) (Finite m2 e2) =
     (let E = min e1 e2
      in round_to_double (m1 * 2 ^ nat (e1 - E) + m2 * 2 ^ nat (e2 - E)) E)"
| "double_add NaN _ = NaN"
| "double_add _ NaN = NaN"
| "double_add PlusInf MinusInf = NaN"
| "double_add MinusInf PlusInf = NaN"
| "double_add PlusInf _ = PlusInf"
| "double_add MinusInf _ = MinusInf"
| "double_add _ PlusInf = PlusInf"
| "double_add _ MinusInf = MinusInf"

text \<open>\<open>floor(x)\<close>.\<close>

fun floor_d :: "double \<Rightarrow> double" where
  "floor_d (Finite m e) = (if 0 \<le> e then Finite m e else Finite (m div 2 ^ nat (- e)) 0)"
| "floor_d d = d"

text \<open>\<open>int(x)\<close>: the value truncated towards zero when that is an \<open>int\<close>.\<close>

fun double_to_int :: "double \<Rightarrow> int option" where
  "double_to_int (Finite m e) =
     (let t = (if 0 \<le> e then m * 2 ^ nat e else sgn m * (\<bar>m\<bar> div 2 ^ nat (- e)))
      in if - (2 ^ 31) \<le> t \<and> t \<le> 2 ^ 31 - 1 then Some t else None)"
| "double_to_int _ = None"

text \<open>The member initialiser \<open>mInterval(std::max(1, int(floor(aInterval + 0.5))))\<close>;
  \<open>0.5\<close> is the double \<open>1 * 2^-1\<close>.\<close>

definition mInterval_initializer :: "double \<Rightarrow> int option" where
  "mInterval_initializer aInterval =
     map_option (max 1) (double_to_int (floor_d (double_add aInterval (Finite 1 (- 1)))))"

subsection \<open>Data\<close>

type_synonym HANDLE = nat
type_synonym DWORD = "32 word"
type_synonym Address = nat
type_synonym TimeStamp = nat

definition nullptr :: HANDLE where
  [simp]: "nullptr = 0"

text \<open>Build targets. The file reads \<open>Rip/Rsp/Rbp\<close> when \<open>GP_ARCH_amd64\<close>
  is defined and \<open>Eip/Esp/Ebp\<close> otherwise; the Win32 \<open>CONTEXT\<close> has the
  second family on x86 only, so these two targets are the ones the file builds for.\<close>

datatype GP_ARCH = GP_ARCH_amd64 | GP_ARCH_x86

text \<open>The value of \<open>ContextFlags\<close>: zero after \<open>memset\<close>, or one of the two
  winnt.h masks the file stores.\<close>

datatype context_flags = CONTEXT_ZERO | CONTEXT_FULL | CONTEXT_CONTROL

text \<open>The fields of the Win32 \<open>CONTEXT\<close> the file touches. One record carries
  the registers of both targets; a build reads only its own family.\<close>

record CONTEXT =
  ContextFlags :: context_flags
  Rip :: "64 word"
  Rsp :: "64 word"
  Rbp :: "64 word"
  Eip :: "32 word"
  Esp :: "32 word"
  Ebp :: "32 word"

definition CONTEXT_memset0 :: CONTEXT where
  "CONTEXT_memset0 =
     \<lparr>ContextFlags = CONTEXT_ZERO, Rip = 0, Rsp = 0, Rbp = 0, Eip = 0, Esp = 0, Ebp = 0\<rparr>"

text \<open>\<open>class PlatformData\<close>: the handle \<open>OpenThread\<close> returned, null when it failed.\<close>

record PlatformData =
  profiled_thread :: HANDLE

text \<open>What the sampler reads of a registered thread (\<open>ThreadInfo\<close> is declared
  elsewhere): \<open>ThreadId()\<close>, \<open>HasProfile()\<close>, \<open>IsPendingDelete()\<close>,
  \<open>Stack()->CanDuplicateLastSampleDueToSleep()\<close> and \<open>GetPlatformData()\<close>.\<close>

record ThreadInfo =
  ThreadId :: int
  HasProfile :: bool
  IsPendingDelete :: bool
  CanDuplicateLastSampleDueToSleep :: bool
  GetPlatformData :: PlatformData

text \<open>The fields of \<open>TickSample\<close> the file assigns. \<open>context_ptr\<close> is the member
  \<open>context\<close>: the register blob it points to, \<open>None\<close> for a null pointer.\<close>

record TickSample =
  timestamp :: TimeStamp
  threadInfo :: ThreadInfo
  rssMemory :: int
  ussMemory :: int
  pc :: Address
  sp :: Address
  fp :: Address
  context_ptr :: "CONTEXT option"

text \<open>The profiler state guarded by \<open>gPSMutex\<close>, as the holder of the lock reads
  it: \<open>PS::ActivityGeneration(lock)\<close>, \<open>gPS->IsPaused(lock)\<close>,
  \<open>gPS->FeatureMemory(lock)\<close>, \<open>gPS->Threads(lock)\<close>, \<open>gPS->StartTime(lock)\<close>.
  Other threads change it only while they hold the mutex, so it is fixed from
  the moment \<open>Run\<close> has the lock until it gives it up.\<close>

record PS =
  ActivityGeneration :: "32 word"
  IsPaused :: bool
  FeatureMemory :: bool
  Threads :: "ThreadInfo list"
  StartTime :: TimeStamp

text \<open>The calls the file makes, in the order it makes them.\<close>

datatype event =
    EvLock
  | EvUnlock
  | EvDeleteExpiredStoredMarkers
  | EvDuplicateLastSample int TimeStamp bool
  | EvUpdateThreadResponsiveness ThreadInfo
  | EvNow TimeStamp
  | EvResidentFast int
  | EvSuspendThread HANDLE DWORD
  | EvGetThreadContext HANDLE context_flags bool
  | EvResumeThread HANDLE
  | EvTick TickSample
  | EvSleep int
  | EvTimeBeginPeriod int
  | EvTimeEndPeriod int
  | EvBeginThread HANDLE

text \<open>The services the file calls. \<open>AutoLock\<close> is taking \<open>gPSMutex\<close>
  (\<open>PS::AutoLock lock(gPSMutex)\<close>): it yields the guarded profiler state as it is
  once the lock is held; \<open>AutoUnlock\<close> is the end of the scope of \<open>lock\<close>.
  \<open>beginthreadex\<close> is \<open>_beginthreadex\<close> and yields the thread's handle (zero
  when it failed) and id. \<open>GetThreadContext\<close> and \<open>RtlCaptureContext\<close> get the
  buffer and return it filled; \<open>SuspendThread\<close> returns the previous suspend count
  or \<open>(DWORD) -1\<close>. The results of \<open>ResumeThread\<close>, \<open>timeBeginPeriod\<close> and
  \<open>timeEndPeriod\<close> are not looked at by the file.\<close>

record 'w env =
  OpenThread :: "int \<Rightarrow> 'w \<Rightarrow> HANDLE \<times> 'w"
  timeBeginPeriod :: "int \<Rightarrow> 'w \<Rightarrow> 'w"
  timeEndPeriod :: "int \<Rightarrow> 'w \<Rightarrow> 'w"
  beginthreadex :: "'w \<Rightarrow> (HANDLE \<times> nat) \<times> 'w"
  AutoLock :: "'w \<Rightarrow> PS \<times> 'w"
  AutoUnlock :: "'w \<Rightarrow> 'w"
  deleteExpiredStoredMarkers :: "'w \<Rightarrow> 'w"
  DuplicateLastSample :: "int \<Rightarrow> TimeStamp \<Rightarrow> 'w \<Rightarrow> bool \<times> 'w"
  UpdateThreadResponsiveness :: "ThreadInfo \<Rightarrow> 'w \<Rightarrow> 'w"
  TimeStamp_Now :: "'w \<Rightarrow> TimeStamp \<times> 'w"
  ResidentFast :: "'w \<Rightarrow> int \<times> 'w"
  SuspendThread :: "HANDLE \<Rightarrow> 'w \<Rightarrow> DWORD \<times> 'w"
  GetThreadContext :: "HANDLE \<Rightarrow> CONTEXT \<Rightarrow> 'w \<Rightarrow> (bool \<times> CONTEXT) \<times> 'w"
  ResumeThread :: "HANDLE \<Rightarrow> 'w \<Rightarrow> 'w"
  Tick :: "TickSample \<Rightarrow> 'w \<Rightarrow> 'w"
  Sleep :: "int \<Rightarrow> 'w \<Rightarrow> 'w"
  RtlCaptureContext :: "CONTEXT \<Rightarrow> 'w \<Rightarrow> CONTEXT \<times> 'w"

subsection \<open>PlatformData\<close>

definition AllocPlatformData :: "'w env \<Rightarrow> int \<Rightarrow> 'w \<Rightarrow> PlatformData \<times> 'w" where
  "AllocPlatformData E aThreadId w =
     (let (h, w) = OpenThread E aThreadId w in (\<lparr>profiled_thread = h\<rparr>, w))"

definition GetThreadHandle :: "PlatformData \<Rightarrow> nat" where
  "GetThreadHandle aData = profiled_thread aData"

subsection \<open>SamplerThread\<close>

record SamplerThread =
  mActivityGeneration :: "32 word"
  mThread :: HANDLE
  mThreadId :: nat
  mInterval :: int

datatype failure = UndefinedConversion | MOZ_CRASH

text \<open>The constructor \<open>SamplerThread::SamplerThread\<close>. The thread it starts runs
  \<open>Run\<close>, modelled on its own below.\<close>

definition SamplerThread_new ::
  "'w env \<Rightarrow> 32 word \<Rightarrow> double \<Rightarrow> 'w \<Rightarrow> (failure + SamplerThread) \<times> event list \<times> 'w" where
  "SamplerThread_new E aActivityGeneration aInterval w =
     (case mInterval_initializer aInterval of
        None \<Rightarrow> (Inl UndefinedConversion, [], w)
      | Some interval \<Rightarrow>
          let (evs, w) = (if interval < 10
                          then ([EvTimeBeginPeriod interval], timeBeginPeriod E interval w)
                          else ([], w));
              ((thread, tid), w) = beginthreadex E w;
              evs = evs @ [EvBeginThread thread]
          in if thread = nullptr then (Inl MOZ_CRASH, evs, w)
             else (Inr \<lparr>mActivityGeneration = aActivityGeneration, mThread = thread,
                         mThreadId = tid, mInterval = interval\<rparr>, evs, w))"

definition Stop :: "'w env \<Rightarrow> SamplerThread \<Rightarrow> 'w \<Rightarrow> event list \<times> 'w" where
  "Stop E this w =
     (if mInterval this < 10
      then ([EvTimeEndPeriod (mInterval this)], timeEndPeriod E (mInterval this) w)
      else ([], w))"

definition kSuspendFailed :: DWORD where
  "kSuspendFailed = - 1"

definition SampleContext ::
  "GP_ARCH \<Rightarrow> 'w env \<Rightarrow> PS \<Rightarrow> ThreadInfo \<Rightarrow> bool \<Rightarrow> 'w \<Rightarrow> event list \<times> 'w" where
  "SampleContext arch E gPS aThreadInfo isFirstProfiledThread w =
     (let profiled_thread = GetThreadHandle (GetPlatformData aThreadInfo) in
      if profiled_thread = nullptr then ([], w)
      else
        let context = CONTEXT_memset0;
            (now, w) = TimeStamp_Now E w;
            (rss, evs_rss, w) =
              (if isFirstProfiledThread \<and> FeatureMemory gPS
               then (let (r, w) = ResidentFast E w in (r, [EvResidentFast r], w))
               else (0, [], w));
            (suspended, w) = SuspendThread E profiled_thread w;
            evs = [EvNow now] @ evs_rss @ [EvSuspendThread profiled_thread suspended]
        in
        if suspended = kSuspendFailed then (evs, w)
        else
          let context = context\<lparr>ContextFlags :=
                  (case arch of GP_ARCH_amd64 \<Rightarrow> CONTEXT_FULL | GP_ARCH_x86 \<Rightarrow> CONTEXT_CONTROL)\<rparr>;
              ((ok, context'), w) = GetThreadContext E profiled_thread context w;
              evs = evs @ [EvGetThreadContext profiled_thread (ContextFlags context) ok]
          in
          if \<not> ok then (evs @ [EvResumeThread profiled_thread], ResumeThread E profiled_thread w)
          else
            let sample =
                  (case arch of
                     GP_ARCH_amd64 \<Rightarrow>
                       \<lparr>timestamp = now, threadInfo = aThreadInfo, rssMemory = rss, ussMemory = 0,
                        pc = unat (Rip context'), sp = unat (Rsp context'), fp = unat (Rbp context'),
                        context_ptr = Some context'\<rparr>
                   | GP_ARCH_x86 \<Rightarrow>
                       \<lparr>timestamp = now, threadInfo = aThreadInfo, rssMemory = rss, ussMemory = 0,
                        pc = unat (Eip context'), sp = unat (Esp context'), fp = unat (Ebp context'),
                        context_ptr = Some context'\<rparr>);
                w = Tick E sample w;
                w = ResumeThread E profiled_thread w
            in (evs @ [EvTick sample, EvResumeThread profiled_thread], w))"

text \<open>One trip through the body of the \<open>for\<close> loop of \<open>Run\<close>, for the thread
  \<open>info\<close>: the calls made, the new value of \<open>isFirstProfiledThread\<close> and the
  new world. \<open>DuplicateLastSample\<close> is called only when the first operand of
  \<open>&&\<close> is true.\<close>

definition Run_for_body ::
  "GP_ARCH \<Rightarrow> 'w env \<Rightarrow> PS \<Rightarrow> ThreadInfo \<Rightarrow> bool \<Rightarrow> 'w \<Rightarrow> event list \<times> bool \<times> 'w" where
  "Run_for_body arch E gPS info isFirstProfiledThread w =
     (if \<not> HasProfile info \<or> IsPendingDelete info then ([], isFirstProfiledThread, w)
      else
        let (skip, evs_dup, w) =
              (if CanDuplicateLastSampleDueToSleep info
               then (let (dup, w) = DuplicateLastSample E (ThreadId info) (StartTime gPS) w
                     in (dup, [EvDuplicateLastSample (ThreadId info) (StartTime gPS) dup], w))
               else (False, [], w))
        in
        if skip then (evs_dup, isFirstProfiledThread, w)
        else
          let w = UpdateThreadResponsiveness E info w;
              (evs, w) = SampleContext arch E gPS info isFirstProfiledThread w
          in (evs_dup @ [EvUpdateThreadResponsiveness info] @ evs, False, w))"

text \<open>The \<open>for\<close> loop over \<open>threads\<close> (the index is a \<open>uint32_t\<close>; the
  vector is taken to have fewer than \<open>2^32\<close> entries).\<close>

fun Run_for ::
  "GP_ARCH \<Rightarrow> 'w env \<Rightarrow> PS \<Rightarrow> ThreadInfo list \<Rightarrow> bool \<Rightarrow> 'w \<Rightarrow> event list \<times> bool \<times> 'w" where
  "Run_for arch E gPS [] isFirstProfiledThread w = ([], isFirstProfiledThread, w)"
| "Run_for arch E gPS (info # threads) isFirstProfiledThread w =
     (let (evs, isFirstProfiledThread, w) = Run_for_body arch E gPS info isFirstProfiledThread w;
          (evs', isFirstProfiledThread, w) = Run_for arch E gPS threads isFirstProfiledThread w
      in (evs @ evs', isFirstProfiledThread, w))"

text \<open>One trip through the body of \<open>while (true)\<close>: whether \<open>Run\<close> returned
  in it, the calls made and the new world.\<close>

definition Run_pass ::
  "GP_ARCH \<Rightarrow> 'w env \<Rightarrow> SamplerThread \<Rightarrow> 'w \<Rightarrow> bool \<times> event list \<times> 'w" where
  "Run_pass arch E this w =
     (let (gPS, w) = AutoLock E w in
      if ActivityGeneration gPS \<noteq> mActivityGeneration this
      then (True, [EvLock, EvUnlock], AutoUnlock E w)
      else
        let w = deleteExpiredStoredMarkers E w;
            (evs, isFirstProfiledThread, w) =
              (if \<not> IsPaused gPS then Run_for arch E gPS (Threads gPS) True w
               else ([], True, w));
            w = AutoUnlock E w;
            w = Sleep E (mInterval this) w
        in (False,
            [EvLock, EvDeleteExpiredStoredMarkers] @ evs @ [EvUnlock, EvSleep (mInterval this)],
            w))"

text \<open>\<open>Run\<close>: the loop itself. \<open>tr\<close> collects the calls made so far; the
  value is \<open>None\<close> when the loop never returns.\<close>

partial_function (option) Run ::
  "GP_ARCH \<Rightarrow> 'w env \<Rightarrow> SamplerThread \<Rightarrow> event list \<Rightarrow> 'w \<Rightarrow> (event list \<times> 'w) option" where
  "Run arch E this tr w =
     (case Run_pass arch E this w of
        (returned, evs, w') \<Rightarrow>
          if returned then Some (tr @ evs, w') else Run arch E this (tr @ evs) w')"

declare Run.simps [code]

text \<open>The calls made and the world reached after \<open>n\<close> trips through the body of
  \<open>while (true)\<close>, started with the calls \<open>tr\<close> in the world \<open>w\<close>; it describes
  \<open>Run\<close> as long as no trip returned.\<close>

fun Run_passes ::
  "GP_ARCH \<Rightarrow> 'w env \<Rightarrow> SamplerThread \<Rightarrow> nat \<Rightarrow> event list \<Rightarrow> 'w \<Rightarrow> event list \<times> 'w" where
  "Run_passes arch E this 0 tr w = (tr, w)"
| "Run_passes arch E this (Suc n) tr w =
     (case Run_pass arch E this w of
        (returned, evs, w') \<Rightarrow> Run_passes arch E this n (tr @ evs) w')"

subsection \<open>TickSample::PopulateContext\<close>


subsection \<open>A concrete environment\<close>

text \<open>An environment to run the model on: the world is a counter of the calls
  made so far, which also serves as the clock. \<open>OpenThread\<close> fails for thread 3,
  \<open>SuspendThread\<close> fails for handle 107, \<open>GetThreadContext\<close> fails for handle
  109, \<open>DuplicateLastSample\<close> succeeds for thread 5 only, and the activity
  generation changes from 1 to 2 at time 10.\<close>

definition demo_context :: CONTEXT where
  "demo_context = \<lparr>ContextFlags = CONTEXT_FULL, Rip = 4096, Rsp = 8192, Rbp = 8448,
                    Eip = 256, Esp = 512, Ebp = 528\<rparr>"

definition demo_thread :: "int \<Rightarrow> bool \<Rightarrow> HANDLE \<Rightarrow> ThreadInfo" where
  "demo_thread tid asleep h =
     \<lparr>ThreadId = tid, HasProfile = True, IsPendingDelete = False,
      CanDuplicateLastSampleDueToSleep = asleep, GetPlatformData = \<lparr>profiled_thread = h\<rparr>\<rparr>"

definition demo_PS :: "ThreadInfo list \<Rightarrow> PS" where
  "demo_PS ts = \<lparr>ActivityGeneration = 1, IsPaused = False, FeatureMemory = True,
                 Threads = ts, StartTime = 0\<rparr>"

definition E_demo :: "nat env" where
  "E_demo =
     \<lparr>OpenThread = (\<lambda>tid w. (if tid = 3 then nullptr else 100 + nat tid, w + 1)),
      timeBeginPeriod = (\<lambda>i w. w + 1),
      timeEndPeriod = (\<lambda>i w. w + 1),
      beginthreadex = (\<lambda>w. ((500, 42), w + 1)),
      AutoLock = (\<lambda>w. ((demo_PS [demo_thread 1 False 101])
                            \<lparr>ActivityGeneration := (if w < 10 then 1 else 2)\<rparr>, w + 1)),
      AutoUnlock = (\<lambda>w. w + 1),
      deleteExpiredStoredMarkers = (\<lambda>w. w + 1),
      DuplicateLastSample = (\<lambda>tid t w. (tid = 5, w + 1)),
      UpdateThreadResponsiveness = (\<lambda>ti w. w + 1),
      TimeStamp_Now = (\<lambda>w. (w, w + 1)),
      ResidentFast = (\<lambda>w. (65536, w + 1)),
      SuspendThread = (\<lambda>h w. (if h = 107 then - 1 else 0, w + 1)),
      GetThreadContext = (\<lambda>h c w. ((h \<noteq> 109, demo_context), w + 1)),
      ResumeThread = (\<lambda>h w. w + 1),
      Tick = (\<lambda>s w. w + 1),
      Sleep = (\<lambda>i w. w + 1),
      RtlCaptureContext = (\<lambda>c w. (demo_context, w + 1))\<rparr>"


text \<open>The sample an x86 build records in this environment.\<close>

definition demo_tick :: "TimeStamp \<Rightarrow> ThreadInfo \<Rightarrow> int \<Rightarrow> TickSample" where
  "demo_tick t ti rss =
     \<lparr>timestamp = t, threadInfo = ti, rssMemory = rss, ussMemory = 0,
      pc = 256, sp = 512, fp = 528, context_ptr = Some demo_context\<rparr>"


definition demo_sampler :: SamplerThread where
  "demo_sampler = \<lparr>mActivityGeneration = 1, mThread = 500, mThreadId = 42, mInterval = 3\<rparr>"

subsection \<open>Auxiliary notions for the statements\<close>

text \<open>A stretch of calls that only reads the clock or the memory reporter.\<close>

definition quiet :: "event list \<Rightarrow> bool" where
  "quiet evs = (set evs \<subseteq> range EvNow \<union> range EvResidentFast)"

text \<open>The trip through the loop body that starts in the world \<open>w\<close> finds, once it
  holds the lock, an activity generation other than the one the sampler was built with.\<close>

definition observes_mismatch :: "'w env \<Rightarrow> SamplerThread \<Rightarrow> 'w \<Rightarrow> bool" where
  "observes_mismatch E this w =
     (ActivityGeneration (fst (AutoLock E w)) \<noteq> mActivityGeneration this)"

text \<open>Read off a list of calls: the recorded samples that carry the memory metric
  (a non-zero \<open>rssMemory\<close>), the threads that reached full sampling
  (\<open>UpdateThreadResponsiveness\<close> comes right before \<open>SampleContext\<close>), and the
  readings \<open>ResidentFast\<close> returned.\<close>

definition metric_samples :: "event list \<Rightarrow> TickSample list" where
  "metric_samples evs = [s. EvTick s \<leftarrow> evs, rssMemory s \<noteq> 0]"

definition sampled_threads :: "event list \<Rightarrow> ThreadInfo list" where
  "sampled_threads evs = [ti. EvUpdateThreadResponsiveness ti \<leftarrow> evs]"

definition memory_readings :: "event list \<Rightarrow> int list" where
  "memory_readings evs = [r. EvResidentFast r \<leftarrow> evs]"

section \<open>Properties\<close>

subsection \<open>The shapes of a SampleContext call\<close>

lemma quiet_simps [simp]:
  "quiet pre \<Longrightarrow> EvSuspendThread h r \<notin> set pre"
  "quiet pre \<Longrightarrow> EvResumeThread h \<notin> set pre"
  "quiet pre \<Longrightarrow> EvGetThreadContext h fl ok \<notin> set pre"
  "quiet pre \<Longrightarrow> EvTick s \<notin> set pre"
  "quiet pre \<Longrightarrow> EvUpdateThreadResponsiveness ti \<notin> set pre"
  "quiet pre \<Longrightarrow> EvDuplicateLastSample tid t ok \<notin> set pre"
  by (auto simp: quiet_def)

text \<open>A call of \<open>SampleContext\<close> does nothing (null handle), or stops at the
  failed suspend, or suspends, fails to read the context and resumes, or suspends,
  reads the context, records the sample and resumes.\<close>

lemma SampleContext_outcomes:
  fixes E :: "'w env" and ti :: ThreadInfo
  defines "h \<equiv> GetThreadHandle (GetPlatformData ti)"
  shows "(h = nullptr \<and> SampleContext arch E gPS ti f w = ([], w))
       \<or> (h \<noteq> nullptr \<and> (\<exists>pre. quiet pre \<and>
             fst (SampleContext arch E gPS ti f w) = pre @ [EvSuspendThread h kSuspendFailed]))
       \<or> (h \<noteq> nullptr \<and> (\<exists>pre r fl. quiet pre \<and> r \<noteq> kSuspendFailed \<and>
             fst (SampleContext arch E gPS ti f w) =
               pre @ [EvSuspendThread h r, EvGetThreadContext h fl False, EvResumeThread h]))
       \<or> (h \<noteq> nullptr \<and> (\<exists>pre r fl s. quiet pre \<and> r \<noteq> kSuspendFailed \<and> threadInfo s = ti \<and>
             fst (SampleContext arch E gPS ti f w) =
               pre @ [EvSuspendThread h r, EvGetThreadContext h fl True, EvTick s, EvResumeThread h]))"
  unfolding h_def SampleContext_def quiet_def
  by (cases arch) (auto simp: Let_def split: prod.splits)

subsection \<open>The loop over the registered threads\<close>

lemma Run_for_append:
  "Run_for arch E gPS (xs @ ys) f w =
     (case Run_for arch E gPS xs f w of
        (e1, f1, w1) \<Rightarrow>
          (case Run_for arch E gPS ys f1 w1 of (e2, f2, w2) \<Rightarrow> (e1 @ e2, f2, w2)))"
  by (induction xs arbitrary: f w) (auto split: prod.splits)

lemma Run_for_split:
  assumes "Run_for arch E gPS pre f w = (e1, f1, w1)"
      and "Run_for_body arch E gPS info f1 w1 = (eb, fb, wb)"
      and "Run_for arch E gPS post fb wb = (e3, f3, w3)"
  shows "Run_for arch E gPS (pre @ info # post) f w = (e1 @ eb @ e3, f3, w3)"
  using assms by (simp add: Run_for_append)

lemma Run_for_body_eligible:
  assumes "HasProfile info" "\<not> IsPendingDelete info"
  shows "Run_for_body arch E gPS info f w =
     (if CanDuplicateLastSampleDueToSleep info
      then (case DuplicateLastSample E (ThreadId info) (StartTime gPS) w of
              (dup, w1) \<Rightarrow>
                if dup then ([EvDuplicateLastSample (ThreadId info) (StartTime gPS) True], f, w1)
                else (case SampleContext arch E gPS info f (UpdateThreadResponsiveness E info w1) of
                        (evs, w2) \<Rightarrow>
                          ([EvDuplicateLastSample (ThreadId info) (StartTime gPS) False,
                            EvUpdateThreadResponsiveness info] @ evs, False, w2)))
      else (case SampleContext arch E gPS info f (UpdateThreadResponsiveness E info w) of
              (evs, w2) \<Rightarrow> ([EvUpdateThreadResponsiveness info] @ evs, False, w2)))"
  using assms by (auto simp: Run_for_body_def Let_def split: prod.splits)

text \<open>The calls of one trip through the loop body: nothing, or the duplicate alone,
  or (after a failed duplicate, if any) the responsiveness update and SampleContext.\<close>

lemma Run_for_body_outcomes:
  fixes E :: "'w env"
  assumes b: "Run_for_body arch E gPS info f w = (eb, fb, wb)"
  shows "((\<not> HasProfile info \<or> IsPendingDelete info) \<and> eb = [] \<and> fb = f \<and> wb = w)
       \<or> (HasProfile info \<and> \<not> IsPendingDelete info \<and> fb = f \<and>
            eb = [EvDuplicateLastSample (ThreadId info) (StartTime gPS) True])
       \<or> (HasProfile info \<and> \<not> IsPendingDelete info \<and> \<not> fb \<and>
            (\<exists>dups w1 evs.
               (dups = [] \<or> dups = [EvDuplicateLastSample (ThreadId info) (StartTime gPS) False]) \<and>
               SampleContext arch E gPS info f w1 = (evs, wb) \<and>
               eb = dups @ [EvUpdateThreadResponsiveness info] @ evs))"
proof (cases "HasProfile info \<and> \<not> IsPendingDelete info")
  case False
  with b show ?thesis by (auto simp: Run_for_body_def)
next
  case el: True
  note eq = Run_for_body_eligible [of info arch E gPS f w]
  show ?thesis
  proof (cases "CanDuplicateLastSampleDueToSleep info")
    case False
    obtain evs w2 where
      sc: "SampleContext arch E gPS info f (UpdateThreadResponsiveness E info w) = (evs, w2)"
      by (cases "SampleContext arch E gPS info f (UpdateThreadResponsiveness E info w)") auto
    with b el False eq have "eb = [] @ [EvUpdateThreadResponsiveness info] @ evs" "\<not> fb" "wb = w2"
      by auto
    with sc el show ?thesis by blast
  next
    case True
    obtain dup w1 where d: "DuplicateLastSample E (ThreadId info) (StartTime gPS) w = (dup, w1)"
      by (cases "DuplicateLastSample E (ThreadId info) (StartTime gPS) w") auto
    show ?thesis
    proof (cases dup)
      case True
      with b el \<open>CanDuplicateLastSampleDueToSleep info\<close> d eq show ?thesis by auto
    next
      case False
      obtain evs w2 where
        sc: "SampleContext arch E gPS info f (UpdateThreadResponsiveness E info w1) = (evs, w2)"
        by (cases "SampleContext arch E gPS info f (UpdateThreadResponsiveness E info w1)") auto
      with b el False \<open>CanDuplicateLastSampleDueToSleep info\<close> d eq
      have "eb = [EvDuplicateLastSample (ThreadId info) (StartTime gPS) False]
                   @ [EvUpdateThreadResponsiveness info] @ evs" "\<not> fb" "wb = w2"
        by auto
      with sc el show ?thesis by blast
    qed
  qed
qed

lemma Run_for_processes:
  "t \<in> set ts \<Longrightarrow> HasProfile t \<Longrightarrow> \<not> IsPendingDelete t \<Longrightarrow>
     EvDuplicateLastSample (ThreadId t) (StartTime gPS) True \<in> set (fst (Run_for arch E gPS ts f w))
     \<or> EvUpdateThreadResponsiveness t \<in> set (fst (Run_for arch E gPS ts f w))"
proof (induction ts arbitrary: f w)
  case Nil
  then show ?case by simp
next
  case (Cons a ts)
  obtain eb fb wb where b: "Run_for_body arch E gPS a f w = (eb, fb, wb)"
    by (cases "Run_for_body arch E gPS a f w") auto
  obtain er fr wr where r: "Run_for arch E gPS ts fb wb = (er, fr, wr)"
    by (cases "Run_for arch E gPS ts fb wb") auto
  show ?case
  proof (cases "t = a")
    case True
    from Run_for_body_outcomes [OF b] Cons.prems True
    have "EvDuplicateLastSample (ThreadId t) (StartTime gPS) True \<in> set eb
          \<or> EvUpdateThreadResponsiveness t \<in> set eb"
      by auto
    with b r show ?thesis by auto
  next
    case False
    with Cons.prems have "t \<in> set ts" by simp
    from Cons.IH [OF this Cons.prems(2,3), of fb wb] b r show ?thesis by auto
  qed
qed

subsection \<open>Where recorded samples come from\<close>

lemma SampleContext_ticks:
  fixes E :: "'w env"
  assumes "EvTick s \<in> set (fst (SampleContext arch E gPS ti f w))"
  shows "threadInfo s = ti \<and> GetThreadHandle (GetPlatformData ti) \<noteq> nullptr"
  using SampleContext_outcomes [of ti arch E gPS f w] assms
  by (elim disjE conjE exE) auto

lemma Run_for_body_ticks:
  fixes E :: "'w env"
  assumes "EvTick s \<in> set (fst (Run_for_body arch E gPS ti f w))"
  shows "threadInfo s = ti \<and> GetThreadHandle (GetPlatformData ti) \<noteq> nullptr"
proof -
  obtain eb fb wb where b: "Run_for_body arch E gPS ti f w = (eb, fb, wb)"
    by (cases "Run_for_body arch E gPS ti f w") auto
  from Run_for_body_outcomes [OF b] assms b
  obtain w1 evs where "SampleContext arch E gPS ti f w1 = (evs, wb)" "EvTick s \<in> set evs"
    by (elim disjE conjE exE) auto
  with SampleContext_ticks [of s arch E gPS ti f w1] show ?thesis by simp
qed

lemma Run_for_ticks:
  fixes E :: "'w env"
  assumes "EvTick s \<in> set (fst (Run_for arch E gPS ts f w))"
  shows "threadInfo s \<in> set ts \<and> GetThreadHandle (GetPlatformData (threadInfo s)) \<noteq> nullptr"
  using assms
proof (induction ts arbitrary: f w)
  case Nil
  then show ?case by simp
next
  case (Cons a ts)
  obtain eb fb wb where b: "Run_for_body arch E gPS a f w = (eb, fb, wb)"
    by (cases "Run_for_body arch E gPS a f w") auto
  obtain er fr wr where r: "Run_for arch E gPS ts fb wb = (er, fr, wr)"
    by (cases "Run_for arch E gPS ts fb wb") auto
  from Cons.prems b r have "EvTick s \<in> set eb \<or> EvTick s \<in> set er" by auto
  then show ?case
  proof
    assume "EvTick s \<in> set eb"
    with Run_for_body_ticks [of s arch E gPS a f w] b show ?thesis by simp
  next
    assume "EvTick s \<in> set er"
    with Cons.IH [of fb wb] r show ?thesis by simp
  qed
qed

lemma Run_pass_ticks:
  fixes E :: "'w env"
  assumes "EvTick s \<in> set (fst (snd (Run_pass arch E this w)))"
  shows "GetThreadHandle (GetPlatformData (threadInfo s)) \<noteq> nullptr"
proof -
  obtain gPS w1 where l: "AutoLock E w = (gPS, w1)"
    by (cases "AutoLock E w") auto
  obtain evs f' w2 where r:
    "Run_for arch E gPS (Threads gPS) True (deleteExpiredStoredMarkers E w1) = (evs, f', w2)"
    by (cases "Run_for arch E gPS (Threads gPS) True (deleteExpiredStoredMarkers E w1)") auto
  from assms l r have "EvTick s \<in> set evs"
    by (auto simp: Run_pass_def Let_def split: if_splits)
  with Run_for_ticks [of s arch E gPS "Threads gPS" True "deleteExpiredStoredMarkers E w1"] r
  show ?thesis by simp
qed

lemma Run_passes_ticks:
  fixes E :: "'w env"
  assumes "EvTick s \<in> set (fst (Run_passes arch E this n tr w))"
  shows "EvTick s \<in> set tr \<or> GetThreadHandle (GetPlatformData (threadInfo s)) \<noteq> nullptr"
  using assms
proof (induction n arbitrary: tr w)
  case 0
  then show ?case by simp
next
  case (Suc n)
  obtain ret evs w' where p: "Run_pass arch E this w = (ret, evs, w')"
    by (cases "Run_pass arch E this w") auto
  with Suc.prems have "EvTick s \<in> set (fst (Run_passes arch E this n (tr @ evs) w'))" by simp
  from Suc.IH [OF this] have "EvTick s \<in> set tr \<or> EvTick s \<in> set evs
      \<or> GetThreadHandle (GetPlatformData (threadInfo s)) \<noteq> nullptr" by auto
  with Run_pass_ticks [of s arch E this w] p show ?case by auto
qed

subsection \<open>Running the concrete environment\<close>

lemmas demo_eval =
  SampleContext_def Run_for_body_def Run_pass_def E_demo_def demo_PS_def demo_thread_def
  demo_context_def GetThreadHandle_def kSuspendFailed_def CONTEXT_memset0_def Let_def

subsection \<open>Suspend and resume are paired\<close>

text \<open>
  C1. Whenever a call of \<open>SampleContext\<close> makes a \<open>SuspendThread\<close> call that
  succeeds (its result is not \<open>kSuspendFailed\<close>), the suspended handle is the target
  thread's, and the calls made are: some calls without any suspend or resume, the
  suspend, some more calls without any suspend or resume, and last, exactly one
  \<open>ResumeThread\<close> on the same handle. This covers both the path on which
  \<open>GetThreadContext\<close> fails and the path that records the sample.
\<close>

theorem SampleContext_resumes_once:
  fixes E :: "'w env"
  assumes run: "SampleContext arch E gPS aThreadInfo isFirstProfiledThread w = (evs, w')"
      and susp: "EvSuspendThread h r \<in> set evs"
      and ok: "r \<noteq> kSuspendFailed"
  shows "h = GetThreadHandle (GetPlatformData aThreadInfo) \<and>
         (\<exists>pre mid. evs = pre @ [EvSuspendThread h r] @ mid @ [EvResumeThread h] \<and>
            (\<forall>h'. EvResumeThread h' \<notin> set (pre @ mid)) \<and>
            (\<forall>h' r'. EvSuspendThread h' r' \<notin> set (pre @ mid)))"
proof -
  let ?h = "GetThreadHandle (GetPlatformData aThreadInfo)"
  from SampleContext_outcomes [of aThreadInfo arch E gPS isFirstProfiledThread w] run
  consider
      (null) "evs = []"
    | (failed) pre where "quiet pre" "evs = pre @ [EvSuspendThread ?h kSuspendFailed]"
    | (noctx) pre r0 fl where "quiet pre" "r0 \<noteq> kSuspendFailed"
        "evs = pre @ [EvSuspendThread ?h r0, EvGetThreadContext ?h fl False, EvResumeThread ?h]"
    | (sampled) pre r0 fl s where "quiet pre" "r0 \<noteq> kSuspendFailed"
        "evs = pre @ [EvSuspendThread ?h r0, EvGetThreadContext ?h fl True, EvTick s,
                      EvResumeThread ?h]"
    by auto
  then show ?thesis
  proof cases
    case null
    with susp show ?thesis by simp
  next
    case failed
    with susp ok show ?thesis by auto
  next
    case noctx
    with susp have eq: "h = ?h" "r = r0" by auto
    have "evs = pre @ [EvSuspendThread h r] @ [EvGetThreadContext h fl False] @ [EvResumeThread h]"
      using noctx eq by simp
    moreover have "\<forall>h'. EvResumeThread h' \<notin> set (pre @ [EvGetThreadContext h fl False])"
      using noctx(1) by simp
    moreover have "\<forall>h' r'. EvSuspendThread h' r' \<notin> set (pre @ [EvGetThreadContext h fl False])"
      using noctx(1) by simp
    ultimately show ?thesis using eq by blast
  next
    case sampled
    with susp have eq: "h = ?h" "r = r0" by auto
    have "evs = pre @ [EvSuspendThread h r] @ [EvGetThreadContext h fl True, EvTick s]
                  @ [EvResumeThread h]"
      using sampled eq by simp
    moreover have "\<forall>h'. EvResumeThread h' \<notin> set (pre @ [EvGetThreadContext h fl True, EvTick s])"
      using sampled(1) by simp
    moreover have "\<forall>h' r'. EvSuspendThread h' r'
                     \<notin> set (pre @ [EvGetThreadContext h fl True, EvTick s])"
      using sampled(1) by simp
    ultimately show ?thesis using eq by blast
  qed
qed

text \<open>The theorem at work on the thread whose context cannot be read.\<close>

theorem SampleContext_resumes_once_witness:
  "EvSuspendThread 109 0
     \<in> set (fst (SampleContext GP_ARCH_amd64 E_demo (demo_PS []) (demo_thread 9 False 109) True 0)) \<and>
   (0 :: DWORD) \<noteq> kSuspendFailed \<and>
   (\<exists>pre mid.
      fst (SampleContext GP_ARCH_amd64 E_demo (demo_PS []) (demo_thread 9 False 109) True 0)
        = pre @ [EvSuspendThread 109 0] @ mid @ [EvResumeThread 109] \<and>
      (\<forall>h'. EvResumeThread h' \<notin> set (pre @ mid)) \<and>
      (\<forall>h' r'. EvSuspendThread h' r' \<notin> set (pre @ mid)))"
proof -
  have run: "SampleContext GP_ARCH_amd64 E_demo (demo_PS []) (demo_thread 9 False 109) True 0 =
      ([EvNow 0, EvResidentFast 65536, EvSuspendThread 109 0,
        EvGetThreadContext 109 CONTEXT_FULL False, EvResumeThread 109], 5)"
    by (simp add: SampleContext_def E_demo_def demo_PS_def demo_thread_def GetThreadHandle_def
        kSuspendFailed_def CONTEXT_memset0_def Let_def)
  have susp: "EvSuspendThread 109 0 \<in> set [EvNow 0, EvResidentFast 65536, EvSuspendThread 109 0,
        EvGetThreadContext 109 CONTEXT_FULL False, EvResumeThread 109]"
    by simp
  have ok: "(0 :: DWORD) \<noteq> kSuspendFailed"
    by (simp add: kSuspendFailed_def)
  from SampleContext_resumes_once [OF run susp ok] run susp ok show ?thesis
    by simp
qed

subsection \<open>When the loop returns\<close>

lemma Run_pass_returned:
  "observes_mismatch E this w \<Longrightarrow>
     Run_pass arch E this w = (True, [EvLock, EvUnlock], AutoUnlock E (snd (AutoLock E w)))"
  by (cases "AutoLock E w") (simp add: Run_pass_def observes_mismatch_def)

lemma Run_pass_continues:
  "\<not> observes_mismatch E this w \<Longrightarrow> \<not> fst (Run_pass arch E this w)"
  unfolding Run_pass_def observes_mismatch_def
  by (cases "AutoLock E w") (simp add: split_def Let_def)

lemma Run_returns:
  "observes_mismatch E this w \<Longrightarrow>
     Run arch E this tr w = Some (tr @ [EvLock, EvUnlock], AutoUnlock E (snd (AutoLock E w)))"
  by (subst Run.simps) (simp add: Run_pass_returned)

lemma Run_continues:
  assumes "\<not> observes_mismatch E this w"
  shows "Run arch E this tr w =
           Run arch E this (fst (Run_passes arch E this (Suc 0) tr w))
                           (snd (Run_passes arch E this (Suc 0) tr w))"
proof -
  obtain ret evs w' where p: "Run_pass arch E this w = (ret, evs, w')"
    by (cases "Run_pass arch E this w") auto
  with Run_pass_continues [OF assms, of arch] have "\<not> ret" by simp
  with p show ?thesis by (subst Run.simps) simp
qed

lemma Run_passes_Suc:
  "Run_passes arch E this (Suc n) tr w =
     Run_passes arch E this n (fst (Run_passes arch E this (Suc 0) tr w))
                              (snd (Run_passes arch E this (Suc 0) tr w))"
  by (simp split: prod.splits)

lemma Run_result:
  assumes "\<forall>m<n. \<not> observes_mismatch E this (snd (Run_passes arch E this m tr w))"
      and "observes_mismatch E this (snd (Run_passes arch E this n tr w))"
  shows "Run arch E this tr w =
           Some (fst (Run_passes arch E this n tr w) @ [EvLock, EvUnlock],
                 AutoUnlock E (snd (AutoLock E (snd (Run_passes arch E this n tr w)))))"
  using assms
proof (induction n arbitrary: tr w)
  case 0
  then show ?case by (simp add: Run_returns)
next
  case (Suc n)
  let ?tr = "fst (Run_passes arch E this (Suc 0) tr w)"
  let ?w = "snd (Run_passes arch E this (Suc 0) tr w)"
  from Suc.prems(1) have "\<not> observes_mismatch E this (snd (Run_passes arch E this 0 tr w))"
    by blast
  then have now: "\<not> observes_mismatch E this w" by simp
  have later: "\<forall>m<n. \<not> observes_mismatch E this (snd (Run_passes arch E this m ?tr ?w))"
  proof (intro allI impI)
    fix m assume "m < n"
    then have "Suc m < Suc n" by simp
    with Suc.prems(1)
    have "\<not> observes_mismatch E this (snd (Run_passes arch E this (Suc m) tr w))" by blast
    then show "\<not> observes_mismatch E this (snd (Run_passes arch E this m ?tr ?w))"
      unfolding Run_passes_Suc [of arch E this m tr w] .
  qed
  have last: "observes_mismatch E this (snd (Run_passes arch E this n ?tr ?w))"
    using Suc.prems(2) unfolding Run_passes_Suc [of arch E this n tr w] .
  from Suc.IH [OF later last] Run_continues [OF now, of arch tr]
  show ?case by (simp only: Run_passes_Suc [of arch E this n tr w])
qed

lemma Run_Some_observes:
  assumes "Run arch E this tr w = Some r"
  shows "\<exists>n. observes_mismatch E this (snd (Run_passes arch E this n tr w))"
  using assms
proof (induction arch E this tr w r rule: Run.raw_induct [rotated 1, consumes 1])
  case (1 Run' arch E this tr w r)
  show ?case
  proof (cases "observes_mismatch E this w")
    case True
    then have "observes_mismatch E this (snd (Run_passes arch E this 0 tr w))" by simp
    then show ?thesis by blast
  next
    case False
    obtain ret evs w' where p: "Run_pass arch E this w = (ret, evs, w')"
      by (cases "Run_pass arch E this w") auto
    with Run_pass_continues [OF False, of arch] have "\<not> ret" by simp
    with 1(2) p have "Run' arch E this (tr @ evs) w' = Some r" by simp
    from 1(1) [OF this] obtain n where
      "observes_mismatch E this (snd (Run_passes arch E this n (tr @ evs) w'))" by blast
    with p have "observes_mismatch E this (snd (Run_passes arch E this (Suc n) tr w))"
      by simp
    then show ?thesis by blast
  qed
qed

text \<open>
  C2. \<open>Run\<close> returns if and only if some trip through the loop body finds the
  activity generation changed. When the first such trip is the one after \<open>n\<close>
  full trips, \<open>Run\<close> returns in it: the calls it has made are those of the \<open>n\<close>
  full trips followed by taking and releasing the lock, and nothing else (no
  \<open>deleteExpiredStoredMarkers\<close>, no thread, no \<open>Sleep\<close>) comes after.
\<close>

theorem Run_returns_exactly_on_generation_mismatch:
  fixes E :: "'w env"
  shows "(Run arch E this tr w \<noteq> None) =
           (\<exists>n. observes_mismatch E this (snd (Run_passes arch E this n tr w))) \<and>
         ((\<forall>m<n. \<not> observes_mismatch E this (snd (Run_passes arch E this m tr w))) \<and>
          observes_mismatch E this (snd (Run_passes arch E this n tr w)) \<longrightarrow>
          Run arch E this tr w =
            Some (fst (Run_passes arch E this n tr w) @ [EvLock, EvUnlock],
                  AutoUnlock E (snd (AutoLock E (snd (Run_passes arch E this n tr w))))))"
proof (intro conjI impI)
  let ?obs = "\<lambda>n. observes_mismatch E this (snd (Run_passes arch E this n tr w))"
  show "(Run arch E this tr w \<noteq> None) = (\<exists>n. ?obs n)"
  proof
    assume "Run arch E this tr w \<noteq> None"
    then obtain r where "Run arch E this tr w = Some r" by auto
    then show "\<exists>n. ?obs n" by (rule Run_Some_observes)
  next
    assume "\<exists>n. ?obs n"
    then obtain k where "?obs k" ..
    then have least: "?obs (LEAST n. ?obs n)" by (rule LeastI)
    have "\<forall>m<LEAST n. ?obs n. \<not> ?obs m"
      using not_less_Least by blast
    from Run_result [OF this least] show "Run arch E this tr w \<noteq> None" by simp
  qed
next
  assume a: "(\<forall>m<n. \<not> observes_mismatch E this (snd (Run_passes arch E this m tr w))) \<and>
          observes_mismatch E this (snd (Run_passes arch E this n tr w))"
  show "Run arch E this tr w =
            Some (fst (Run_passes arch E this n tr w) @ [EvLock, EvUnlock],
                  AutoUnlock E (snd (AutoLock E (snd (Run_passes arch E this n tr w)))))"
    by (rule Run_result [OF a [THEN conjunct1] a [THEN conjunct2]])
qed

text \<open>In the concrete environment the generation changes during the first trip; the
  second trip returns.\<close>

theorem Run_returns_exactly_on_generation_mismatch_witness:
  "\<not> observes_mismatch E_demo demo_sampler 0 \<and>
   observes_mismatch E_demo demo_sampler 11 \<and>
   Run GP_ARCH_x86 E_demo demo_sampler [] 0 =
     Some ([EvLock, EvDeleteExpiredStoredMarkers,
            EvUpdateThreadResponsiveness (demo_thread 1 False 101), EvNow 3,
            EvResidentFast 65536, EvSuspendThread 101 0,
            EvGetThreadContext 101 CONTEXT_CONTROL True,
            EvTick (demo_tick 3 (demo_thread 1 False 101) 65536), EvResumeThread 101,
            EvUnlock, EvSleep 3, EvLock, EvUnlock], 13)"
proof -
  let ?evs = "[EvLock, EvDeleteExpiredStoredMarkers,
            EvUpdateThreadResponsiveness (demo_thread 1 False 101), EvNow 3,
            EvResidentFast 65536, EvSuspendThread 101 0,
            EvGetThreadContext 101 CONTEXT_CONTROL True,
            EvTick (demo_tick 3 (demo_thread 1 False 101) 65536), EvResumeThread 101,
            EvUnlock, EvSleep 3]"
  have pass: "Run_pass GP_ARCH_x86 E_demo demo_sampler 0 = (False, ?evs, 11)"
    by (simp add: demo_eval demo_tick_def demo_sampler_def)
  have first: "\<not> observes_mismatch E_demo demo_sampler 0"
    by (simp add: observes_mismatch_def E_demo_def demo_sampler_def demo_PS_def)
  have second: "observes_mismatch E_demo demo_sampler 11"
    by (simp add: observes_mismatch_def E_demo_def demo_sampler_def demo_PS_def)
  have passes: "Run_passes GP_ARCH_x86 E_demo demo_sampler (Suc 0) [] 0 = (?evs, 11)"
    by (simp add: pass)
  have before: "\<forall>m<Suc 0. \<not> observes_mismatch E_demo demo_sampler
                   (snd (Run_passes GP_ARCH_x86 E_demo demo_sampler m [] 0))"
    using first by simp
  have after: "observes_mismatch E_demo demo_sampler
                   (snd (Run_passes GP_ARCH_x86 E_demo demo_sampler (Suc 0) [] 0))"
    using second by (simp only: passes snd_conv)
  have unlock: "AutoUnlock E_demo (snd (AutoLock E_demo 11)) = 13"
    by (simp add: E_demo_def)
  from Run_returns_exactly_on_generation_mismatch
         [of GP_ARCH_x86 E_demo demo_sampler "[]" 0 "Suc 0", THEN conjunct2, rule_format,
          OF conjI [OF before after]]
  have "Run GP_ARCH_x86 E_demo demo_sampler [] 0 = Some (?evs @ [EvLock, EvUnlock], 13)"
    by (simp only: passes fst_conv snd_conv unlock)
  with first second show ?thesis by simp
qed

subsection \<open>The memory metric\<close>

lemma trace_filters_append [simp]:
  "metric_samples (xs @ ys) = metric_samples xs @ metric_samples ys"
  "sampled_threads (xs @ ys) = sampled_threads xs @ sampled_threads ys"
  "memory_readings (xs @ ys) = memory_readings xs @ memory_readings ys"
  by (simp_all add: metric_samples_def sampled_threads_def memory_readings_def)

lemma trace_filters_Nil [simp]:
  "metric_samples [] = []" "sampled_threads [] = []" "memory_readings [] = []"
  by (simp_all add: metric_samples_def sampled_threads_def memory_readings_def)











subsection \<open>Duplicating the last sample of a sleeping thread\<close>

text \<open>
  C4. Take a pass over the threads \<open>pre @ info # post\<close> in which \<open>info\<close> is eligible
  (profiled, not pending deletion) and its \<open>CanDuplicateLastSampleDueToSleep\<close> is
  true. After the threads of \<open>pre\<close>, the pass calls \<open>DuplicateLastSample\<close> for
  \<open>info\<close>. If that call returns true, the call is all the pass does for \<open>info\<close>
  (no suspend, no resume), and it goes on with \<open>post\<close>. If it returns false, the pass
  goes on, for \<open>info\<close> in the same pass, with \<open>UpdateThreadResponsiveness\<close> and then
  \<open>SampleContext\<close>, and after that with \<open>post\<close>.
\<close>

theorem Run_duplicate_or_full_sampling:
  fixes E :: "'w env"
  assumes el: "HasProfile info" "\<not> IsPendingDelete info"
      and can: "CanDuplicateLastSampleDueToSleep info"
      and pre: "Run_for arch E gPS pre f w = (e1, f1, w1)"
      and dup: "DuplicateLastSample E (ThreadId info) (StartTime gPS) w1 = (dup, w2)"
      and sc: "SampleContext arch E gPS info f1 (UpdateThreadResponsiveness E info w2) = (e2, w3)"
      and post: "Run_for arch E gPS post (if dup then f1 else False) (if dup then w2 else w3)
                   = (e3, f3, w4)"
  shows "Run_for arch E gPS (pre @ info # post) f w =
           (if dup
            then (e1 @ [EvDuplicateLastSample (ThreadId info) (StartTime gPS) True] @ e3, f3, w4)
            else (e1 @ [EvDuplicateLastSample (ThreadId info) (StartTime gPS) False,
                        EvUpdateThreadResponsiveness info] @ e2 @ e3, f3, w4))"
proof (cases dup)
  case True
  with el can dup have "Run_for_body arch E gPS info f1 w1 =
      ([EvDuplicateLastSample (ThreadId info) (StartTime gPS) True], f1, w2)"
    by (simp add: Run_for_body_eligible)
  from Run_for_split [OF pre this] post True show ?thesis by simp
next
  case False
  with el can dup sc have "Run_for_body arch E gPS info f1 w1 =
      ([EvDuplicateLastSample (ThreadId info) (StartTime gPS) False,
        EvUpdateThreadResponsiveness info] @ e2, False, w3)"
    by (simp add: Run_for_body_eligible)
  from Run_for_split [OF pre this] post False show ?thesis by simp
qed

text \<open>Thread 5 is asleep and has a sample to duplicate; thread 6 is asleep and has
  none.\<close>

theorem Run_duplicate_or_full_sampling_witness:
  "Run_for GP_ARCH_x86 E_demo (demo_PS []) [demo_thread 5 True 105, demo_thread 1 False 101] True 0
     = ([EvDuplicateLastSample 5 0 True,
         EvUpdateThreadResponsiveness (demo_thread 1 False 101), EvNow 2, EvResidentFast 65536,
         EvSuspendThread 101 0, EvGetThreadContext 101 CONTEXT_CONTROL True,
         EvTick (demo_tick 2 (demo_thread 1 False 101) 65536), EvResumeThread 101],
        False, 8) \<and>
   Run_for GP_ARCH_x86 E_demo (demo_PS []) [demo_thread 6 True 106] True 0
     = ([EvDuplicateLastSample 6 0 False,
         EvUpdateThreadResponsiveness (demo_thread 6 True 106), EvNow 2, EvResidentFast 65536,
         EvSuspendThread 106 0, EvGetThreadContext 106 CONTEXT_CONTROL True,
         EvTick (demo_tick 2 (demo_thread 6 True 106) 65536), EvResumeThread 106],
        False, 8)"
proof -
  let ?run = "Run_for GP_ARCH_x86 E_demo (demo_PS [])"
  let ?t5 = "demo_thread 5 True 105" and ?t6 = "demo_thread 6 True 106"
  let ?t1 = "demo_thread 1 False 101"
  have el5: "HasProfile ?t5" "\<not> IsPendingDelete ?t5" "CanDuplicateLastSampleDueToSleep ?t5"
    by (simp_all add: demo_thread_def)
  have el6: "HasProfile ?t6" "\<not> IsPendingDelete ?t6" "CanDuplicateLastSampleDueToSleep ?t6"
    by (simp_all add: demo_thread_def)
  have pre: "?run [] True 0 = ([], True, 0)" by simp
  have dup5: "DuplicateLastSample E_demo (ThreadId ?t5) (StartTime (demo_PS [])) 0 = (True, 1)"
    by (simp add: demo_eval)
  have dup6: "DuplicateLastSample E_demo (ThreadId ?t6) (StartTime (demo_PS [])) 0 = (False, 1)"
    by (simp add: demo_eval)
  obtain e5 w5 where sc5: "SampleContext GP_ARCH_x86 E_demo (demo_PS []) ?t5 True
      (UpdateThreadResponsiveness E_demo ?t5 1) = (e5, w5)"
    by (cases "SampleContext GP_ARCH_x86 E_demo (demo_PS []) ?t5 True
      (UpdateThreadResponsiveness E_demo ?t5 1)") auto
  have post5: "?run [?t1] (if True then True else False) (if True then 1 else w5) =
      ([EvUpdateThreadResponsiveness ?t1, EvNow 2, EvResidentFast 65536,
        EvSuspendThread 101 0, EvGetThreadContext 101 CONTEXT_CONTROL True,
        EvTick (demo_tick 2 ?t1 65536), EvResumeThread 101], False, 8)"
    by (simp add: demo_eval demo_tick_def)
  have sc6: "SampleContext GP_ARCH_x86 E_demo (demo_PS []) ?t6 True
      (UpdateThreadResponsiveness E_demo ?t6 1) =
      ([EvNow 2, EvResidentFast 65536,
        EvSuspendThread 106 0, EvGetThreadContext 106 CONTEXT_CONTROL True,
        EvTick (demo_tick 2 ?t6 65536), EvResumeThread 106], 8)"
    by (simp add: demo_eval demo_tick_def)
  have post6: "?run [] (if False then True else False) (if False then 1 else 8) = ([], False, 8)"
    by simp
  have ids: "ThreadId ?t5 = 5" "ThreadId ?t6 = 6" "StartTime (demo_PS []) = 0"
    by (simp_all add: demo_thread_def demo_PS_def)
  from Run_duplicate_or_full_sampling [OF el5 pre dup5 sc5 post5]
       Run_duplicate_or_full_sampling [OF el6 pre dup6 sc6 post6]
  show ?thesis by (simp add: ids)
qed

subsection \<open>A failed suspend\<close>






subsection \<open>A failed context read\<close>

text \<open>
  C6. Take a pass over the threads \<open>pre @ info # post\<close> in which the calls made for
  \<open>info\<close> contain a \<open>GetThreadContext\<close> that failed. Then these calls end with the
  calls of one \<open>SampleContext\<close> invocation on \<open>info\<close>, which are: clock and
  memory readings, a successful \<open>SuspendThread\<close>, the failed \<open>GetThreadContext\<close>
  and, last before returning, \<open>ResumeThread\<close>, all three on the handle of \<open>info\<close>.
  No sample is handed to \<open>Tick\<close> for \<open>info\<close>, and the pass goes on with the
  threads of \<open>post\<close> as it does after any sampled thread: every eligible one gets
  its last sample duplicated or reaches full sampling.
\<close>

theorem Run_context_failure_resumes_and_continues:
  fixes E :: "'w env"
  assumes pre: "Run_for arch E gPS pre f w = (e1, f1, w1)"
      and body: "Run_for_body arch E gPS info f1 w1 = (eb, fb, wb)"
      and failed: "EvGetThreadContext h fl False \<in> set eb"
      and post: "Run_for arch E gPS post fb wb = (e3, f3, w3)"
  shows "h = GetThreadHandle (GetPlatformData info) \<and>
         (\<exists>w0 evs hd r.
            SampleContext arch E gPS info f1 w0 = (evs, wb) \<and>
            evs = hd @ [EvSuspendThread h r, EvGetThreadContext h fl False, EvResumeThread h] \<and>
            r \<noteq> kSuspendFailed \<and> quiet hd \<and>
            (\<exists>hd'. eb = hd' @ evs \<and> (\<forall>s. EvTick s \<notin> set hd') \<and>
               (\<forall>h'. EvResumeThread h' \<notin> set hd'))) \<and>
         (\<forall>s. EvTick s \<notin> set eb) \<and>
         \<not> fb \<and>
         Run_for arch E gPS (pre @ info # post) f w = (e1 @ eb @ e3, f3, w3) \<and>
         (\<forall>t \<in> set post. HasProfile t \<and> \<not> IsPendingDelete t \<longrightarrow>
            EvDuplicateLastSample (ThreadId t) (StartTime gPS) True \<in> set e3
            \<or> EvUpdateThreadResponsiveness t \<in> set e3)"
proof -
  let ?h = "GetThreadHandle (GetPlatformData info)"
  from failed have "eb \<noteq> []"
      "eb \<noteq> [EvDuplicateLastSample (ThreadId info) (StartTime gPS) True]"
    by auto
  with Run_for_body_outcomes [OF body]
  obtain dups w0 evs where nf: "\<not> fb"
    and dups: "dups = [] \<or> dups = [EvDuplicateLastSample (ThreadId info) (StartTime gPS) False]"
    and sc: "SampleContext arch E gPS info f1 w0 = (evs, wb)"
    and eb: "eb = dups @ [EvUpdateThreadResponsiveness info] @ evs"
    by blast
  from failed eb dups have in_evs: "EvGetThreadContext h fl False \<in> set evs" by auto
  from SampleContext_outcomes [of info arch E gPS f1 w0] sc in_evs
  obtain q r where q: "quiet q" "r \<noteq> kSuspendFailed"
      "evs = q @ [EvSuspendThread ?h r, EvGetThreadContext ?h fl False, EvResumeThread ?h]"
    and h: "h = ?h"
    by (elim disjE conjE exE) auto
  have hd': "eb = (dups @ [EvUpdateThreadResponsiveness info]) @ evs"
       "\<forall>s. EvTick s \<notin> set (dups @ [EvUpdateThreadResponsiveness info])"
       "\<forall>h'. EvResumeThread h' \<notin> set (dups @ [EvUpdateThreadResponsiveness info])"
    using eb dups by auto
  have "\<exists>w0 evs hd r.
            SampleContext arch E gPS info f1 w0 = (evs, wb) \<and>
            evs = hd @ [EvSuspendThread h r, EvGetThreadContext h fl False, EvResumeThread h] \<and>
            r \<noteq> kSuspendFailed \<and> quiet hd \<and>
            (\<exists>hd'. eb = hd' @ evs \<and> (\<forall>s. EvTick s \<notin> set hd') \<and>
               (\<forall>h'. EvResumeThread h' \<notin> set hd'))"
    using sc q h hd' by blast
  moreover have "\<forall>s. EvTick s \<notin> set eb" using eb dups q by auto
  moreover have "\<forall>t \<in> set post. HasProfile t \<and> \<not> IsPendingDelete t \<longrightarrow>
            EvDuplicateLastSample (ThreadId t) (StartTime gPS) True \<in> set e3
            \<or> EvUpdateThreadResponsiveness t \<in> set e3"
    using Run_for_processes [of _ post gPS arch E fb wb] post by auto
  ultimately show ?thesis
    using h nf Run_for_split [OF pre body post] by blast
qed

text \<open>The context of thread 9 cannot be read; thread 1, after it, is sampled.\<close>

theorem Run_context_failure_resumes_and_continues_witness:
  "Run_for_body GP_ARCH_x86 E_demo (demo_PS []) (demo_thread 9 False 109) True 0
     = ([EvUpdateThreadResponsiveness (demo_thread 9 False 109), EvNow 1, EvResidentFast 65536,
         EvSuspendThread 109 0, EvGetThreadContext 109 CONTEXT_CONTROL False,
         EvResumeThread 109], False, 6) \<and>
   Run_for GP_ARCH_x86 E_demo (demo_PS []) [demo_thread 9 False 109, demo_thread 1 False 101] True 0
     = ([EvUpdateThreadResponsiveness (demo_thread 9 False 109), EvNow 1, EvResidentFast 65536,
         EvSuspendThread 109 0, EvGetThreadContext 109 CONTEXT_CONTROL False,
         EvResumeThread 109,
         EvUpdateThreadResponsiveness (demo_thread 1 False 101), EvNow 7,
         EvSuspendThread 101 0, EvGetThreadContext 101 CONTEXT_CONTROL True,
         EvTick (demo_tick 7 (demo_thread 1 False 101) 0), EvResumeThread 101],
        False, 12)"
proof -
  let ?run = "Run_for GP_ARCH_x86 E_demo (demo_PS [])"
  let ?t9 = "demo_thread 9 False 109" and ?t1 = "demo_thread 1 False 101"
  let ?eb = "[EvUpdateThreadResponsiveness ?t9, EvNow 1, EvResidentFast 65536,
              EvSuspendThread 109 0, EvGetThreadContext 109 CONTEXT_CONTROL False,
              EvResumeThread 109]"
  let ?e3 = "[EvUpdateThreadResponsiveness ?t1, EvNow 7,
              EvSuspendThread 101 0, EvGetThreadContext 101 CONTEXT_CONTROL True,
              EvTick (demo_tick 7 ?t1 0), EvResumeThread 101]"
  have pre: "?run [] True 0 = ([], True, 0)" by simp
  have body: "Run_for_body GP_ARCH_x86 E_demo (demo_PS []) ?t9 True 0 = (?eb, False, 6)"
    by (simp add: demo_eval)
  have failed: "EvGetThreadContext 109 CONTEXT_CONTROL False \<in> set ?eb" by simp
  have post: "?run [?t1] False 6 = (?e3, False, 12)"
    by (simp add: demo_eval demo_tick_def)
  from Run_context_failure_resumes_and_continues [OF pre body failed post]
  have "?run ([] @ ?t9 # [?t1]) True 0 = ([] @ ?eb @ ?e3, False, 12)" by blast
  with body show ?thesis by simp
qed

subsection \<open>The timer resolution\<close>

text \<open>
  C7. Let the constructor succeed on \<open>aInterval\<close> and build \<open>this\<close>, and let
  \<open>Stop\<close> run on \<open>this\<close>. The stored interval is the rounded \<open>aInterval\<close>. The
  constructor calls \<open>timeBeginPeriod\<close> exactly when the stored interval is below
  10, once and with the stored interval; \<open>Stop\<close> calls \<open>timeEndPeriod\<close> under
  the same condition, once and with the same argument. So for every argument
  \<open>i\<close>, the two together make as many \<open>timeBeginPeriod i\<close> as
  \<open>timeEndPeriod i\<close> calls.
\<close>

theorem timer_resolution_paired:
  fixes E :: "'w env"
  assumes new: "SamplerThread_new E aActivityGeneration aInterval w = (Inr this, evs, w')"
      and stop: "Stop E this v = (evs', v')"
  shows "mInterval_initializer aInterval = Some (mInterval this) \<and>
         evs = (if mInterval this < 10 then [EvTimeBeginPeriod (mInterval this)] else [])
                 @ [EvBeginThread (mThread this)] \<and>
         evs' = (if mInterval this < 10 then [EvTimeEndPeriod (mInterval this)] else []) \<and>
         (\<forall>i. count_list (evs @ evs') (EvTimeBeginPeriod i)
                = count_list (evs @ evs') (EvTimeEndPeriod i))"
  using new stop
  by (auto simp: SamplerThread_new_def Stop_def Let_def split: option.splits prod.splits if_splits)

text \<open>An interval of 5 ms changes the timer resolution and reverts it; one of
  50 ms does neither.\<close>

theorem timer_resolution_paired_witness:
  "SamplerThread_new E_demo 1 (Finite 5 0) 0
     = (Inr (demo_sampler\<lparr>mInterval := 5\<rparr>), [EvTimeBeginPeriod 5, EvBeginThread 500], 2) \<and>
   Stop E_demo (demo_sampler\<lparr>mInterval := 5\<rparr>) 2 = ([EvTimeEndPeriod 5], 3) \<and>
   SamplerThread_new E_demo 1 (Finite 50 0) 0
     = (Inr (demo_sampler\<lparr>mInterval := 50\<rparr>), [EvBeginThread 500], 1) \<and>
   Stop E_demo (demo_sampler\<lparr>mInterval := 50\<rparr>) 1 = ([], 1) \<and>
   mInterval_initializer (Finite 5 0) = Some 5 \<and>
   mInterval_initializer (Finite 50 0) = Some 50"
proof -
  have i5: "mInterval_initializer (Finite 5 0) = Some 5"
    by (simp add: mInterval_initializer_def round_to_double_def bitlen_def compute_floorlog Let_def)
  have i50: "mInterval_initializer (Finite 50 0) = Some 50"
    by (simp add: mInterval_initializer_def round_to_double_def bitlen_def compute_floorlog Let_def)
  have new5: "SamplerThread_new E_demo 1 (Finite 5 0) 0
     = (Inr (demo_sampler\<lparr>mInterval := 5\<rparr>), [EvTimeBeginPeriod 5, EvBeginThread 500], 2)"
    by (simp add: SamplerThread_new_def i5 E_demo_def demo_sampler_def)
  have stop5: "Stop E_demo (demo_sampler\<lparr>mInterval := 5\<rparr>) 2 = ([EvTimeEndPeriod 5], 3)"
    by (simp add: Stop_def E_demo_def demo_sampler_def)
  have new50: "SamplerThread_new E_demo 1 (Finite 50 0) 0
     = (Inr (demo_sampler\<lparr>mInterval := 50\<rparr>), [EvBeginThread 500], 1)"
    by (simp add: SamplerThread_new_def i50 E_demo_def demo_sampler_def)
  have stop50: "Stop E_demo (demo_sampler\<lparr>mInterval := 50\<rparr>) 1 = ([], 1)"
    by (simp add: Stop_def E_demo_def demo_sampler_def)
  from timer_resolution_paired [OF new5 stop5] timer_resolution_paired [OF new50 stop50]
    new5 stop5 new50 stop50
  show ?thesis by simp
qed

subsection \<open>The stored interval\<close>

text \<open>The floor of a dyadic number, and what \<open>floor\<close> followed by the conversion
  to \<open>int\<close> gives.\<close>

lemma floor_dyadic:
  "\<lfloor>of_int a * 2 powi b :: real\<rfloor> = (if 0 \<le> b then a * 2 ^ nat b else a div 2 ^ nat (- b))"
proof (cases "0 \<le> b")
  case True
  then have "(of_int a * 2 powi b :: real) = of_int (a * 2 ^ nat b)"
    by (simp add: power_int_nonneg_exp)
  then show ?thesis using True by (simp only: floor_of_int if_True)
next
  case False
  then have "(2 powi b :: real) = 1 / of_int (2 ^ nat (- b))"
    by (simp add: power_int_def field_simps)
  then have "(of_int a * 2 powi b :: real) = of_int a / of_int (2 ^ nat (- b))"
    by simp
  then show ?thesis using False by (simp only: floor_divide_of_int_eq if_False)
qed

lemma double_to_int_floor_d:
  "double_to_int (floor_d (Finite a b)) =
     (if - (2 ^ 31) \<le> \<lfloor>of_int a * 2 powi b :: real\<rfloor> \<and> \<lfloor>of_int a * 2 powi b :: real\<rfloor> < 2 ^ 31
      then Some \<lfloor>of_int a * 2 powi b :: real\<rfloor> else None)"
  by (simp add: floor_dyadic Let_def)

lemma add_half_exact:
  fixes m e :: int
  defines "E \<equiv> min e (- 1)"
  shows "(of_int (m * 2 ^ nat (e - E) + 1 * 2 ^ nat (- 1 - E)) * 2 powi E :: real)
           = of_int m * 2 powi e + 1 / 2"
proof (cases "e \<le> - 1")
  case True
  then have E: "E = e" by (simp add: E_def)
  have "(2 ^ nat (- 1 - e) * 2 powi e :: real) = 2 powi (- 1 - e) * 2 powi e"
    using True by (simp add: power_int_nonneg_exp)
  also have "\<dots> = 2 powi (- 1)"
    by (simp flip: power_int_add)
  finally have "(2 ^ nat (- 1 - e) * 2 powi e :: real) = 1 / 2" by simp
  then show ?thesis by (simp add: E algebra_simps)
next
  case False
  then have E: "E = - 1" by (simp add: E_def)
  from False have "nat (e + 1) = Suc (nat e)" by simp
  then have "(2 ^ nat (e + 1) :: real) = 2 * 2 powi e"
    using False by (simp add: power_int_nonneg_exp)
  then show ?thesis by (simp add: E algebra_simps)
qed

lemma round_half_even_cases:
  "round_half_even a k = a div 2 ^ k \<or> round_half_even a k = a div 2 ^ k + 1"
  by (simp add: round_half_even_def Let_def)

lemma round_to_double_exact:
  "bitlen \<bar>M\<bar> \<le> 53 \<Longrightarrow> round_to_double M E = Finite M E"
  by (simp add: round_to_double_def)

lemma round_to_double_rounded:
  assumes "0 < M" "bitlen M - 53 = int K" "0 < K" "E + int K + 1 \<le> 971"
  shows "\<exists>q' e'. round_to_double M E = Finite q' e' \<and>
           (of_int q' * 2 powi e' :: real) = of_int (round_half_even M K) * 2 powi (E + int K)"
proof (cases "round_half_even M K = 2 ^ 53")
  case True
  have "(2 ^ 52 * 2 powi (E + int K + 1) :: real) = 2 ^ 53 * 2 powi (E + int K)"
    by (simp add: power_int_add)
  with True assms show ?thesis
    by (simp add: round_to_double_def Let_def)
next
  case False
  with assms show ?thesis
    by (simp add: round_to_double_def Let_def)
qed

lemma div_bounds_int:
  fixes a b :: int
  assumes "0 < b"
  shows "(a div b) * b \<le> a" "a < (a div b + 1) * b"
proof -
  have eq: "(a div b) * b + a mod b = a" by simp
  have bounds: "0 \<le> a mod b" "a mod b < b" using assms by simp_all
  have expand: "(a div b + 1) * b = (a div b) * b + b" by (simp add: algebra_simps)
  from eq bounds show "(a div b) * b \<le> a" by linarith
  from eq bounds expand show "a < (a div b + 1) * b" by linarith
qed

text \<open>The heart of the matter, on integers: here \<open>aInterval\<close> is \<open>m / 2^N\<close>, the
  exact sum \<open>aInterval + 0.5\<close> is \<open>M / 2^N\<close> and needs more than 53 bits, so the
  addition rounds it. As long as the floor of the exact sum fits in an \<open>int\<close>, the
  floor of the rounded sum differs from it at most where both are clamped to 1.\<close>

lemma rounded_floor_core:
  fixes m M :: int and N :: nat
  assumes m: "\<bar>m\<bar> < 2 ^ 53"
      and N: "1 \<le> N"
      and M: "M = m + 2 ^ (N - 1)"
      and big: "\<not> bitlen \<bar>M\<bar> \<le> 53"
      and lower: "- (2 ^ 31) \<le> M div 2 ^ N"
      and upper: "M div 2 ^ N < 2 ^ 31"
  defines "K \<equiv> nat (bitlen M - 53)"
  defines "t \<equiv> round_half_even M K div 2 ^ (N - K)"
  shows "0 < M \<and> bitlen M - 53 = int K \<and> 0 < K \<and> K < N \<and>
         - (2 ^ 31) \<le> t \<and> t < 2 ^ 31 \<and> max 1 t = max 1 (M div 2 ^ N)"
proof -
  define H :: int where "H = 2 ^ (N - 1)"
  define B :: int where "B = 2 ^ N"
  define n where "n = M div B"
  have H: "0 < H" "2 * H = B"
    using N by (simp_all add: H_def B_def flip: power_Suc)
  have B: "0 < B" by (simp add: B_def)
  have MH: "M = m + H" using M by (simp add: H_def)
  from big have big': "2 ^ 53 \<le> \<bar>M\<bar>"
    by (simp add: bitlen_le_iff_power)
  have Mpos: "0 < M"
  proof (rule ccontr)
    assume "\<not> 0 < M"
    with MH H(1) have "\<bar>M\<bar> \<le> \<bar>m\<bar>" by linarith
    with m big' show False by simp
  qed
  with big' have M53: "2 ^ 53 \<le> M" by simp
  then have "54 \<le> bitlen M"
    by (simp add: bitlen_ge_iff_power)
  then have K: "bitlen M - 53 = int K" "0 < K"
    by (simp_all add: K_def)
  from K have "nat (bitlen M - 1) = 52 + K" by linarith
  with bitlen_bounds [OF Mpos] have lo: "2 ^ (52 + K) \<le> M"
    by simp
  have nB: "n * B \<le> M" "M < (n + 1) * B"
    using div_bounds_int [OF B, of M] by (simp_all add: n_def)
  from upper have "n + 1 \<le> 2 ^ 31" by (simp add: n_def B_def)
  then have "(n + 1) * B \<le> 2 ^ 31 * B"
    using B by (intro mult_right_mono) simp_all
  with nB have "M < 2 ^ 31 * B" by linarith
  with lo have "(2::int) ^ (52 + K) < 2 ^ (31 + N)"
    by (simp add: B_def power_add)
  then have "52 + K < 31 + N"
    by (simp only: power_strict_increasing_iff [of "2::int"] one_less_numeral_iff semiring_norm)
  then have KN: "K < N" by simp
  define D :: int where "D = 2 ^ (N - K)"
  have D: "0 < D" by (simp add: D_def)
  have "B = 2 ^ K * D"
    using KN by (simp add: B_def D_def flip: power_add)
  then have q0n: "(M div 2 ^ K) div D = n"
    using D by (simp add: n_def zdiv_zmult2_eq)
  have n0: "0 \<le> n" using Mpos B by (simp add: n_def pos_imp_zdiv_nonneg_iff)
  have t: "t = round_half_even M K div D" by (simp add: t_def D_def)
  have goal: "- (2 ^ 31) \<le> t \<and> t < 2 ^ 31 \<and> max 1 t = max 1 n"
  proof -
    from round_half_even_cases [of M K]
    consider (down) "round_half_even M K = M div 2 ^ K"
      | (up) "round_half_even M K = M div 2 ^ K + 1"
      by blast
    then show ?thesis
    proof cases
      case down
      with t q0n have "t = n" by simp
      with lower upper show ?thesis by (simp add: n_def B_def)
    next
      case up
      define q0 where "q0 = M div 2 ^ K"
      have t': "t = (q0 + 1) div D" using up t by (simp add: q0_def)
      have q0: "q0 div D = n" using q0n by (simp add: q0_def)
      have q0pos: "0 \<le> q0" using Mpos by (simp add: q0_def pos_imp_zdiv_nonneg_iff)
      show ?thesis
      proof (cases "n = 0")
        case True
        from div_bounds_int [OF D, of q0] q0 True have "q0 < D" by simp
        then have "q0 + 1 \<le> D" by simp
        then have "(q0 + 1) div D \<le> D div D" using D by (intro zdiv_mono1) simp_all
        then have "t \<le> 1" using D t' by simp
        moreover have "0 \<le> t" using q0pos D t' by (simp add: pos_imp_zdiv_nonneg_iff)
        ultimately show ?thesis using True by simp
      next
        case False
        with n0 have n1: "1 \<le> n" by simp
        then have "1 * B \<le> n * B" using B by (intro mult_right_mono) simp_all
        with nB have BM: "B \<le> M" by simp
        from m MH have "M < 2 ^ 53 + H" by simp
        with BM H have "M < 2 ^ 54" by simp
        then have "bitlen M \<le> 54" by (simp add: bitlen_le_iff_power)
        with K have K1: "K = 1" by simp
        from BM \<open>M < 2 ^ 54\<close> have "(2::int) ^ N < 2 ^ 54" by (simp add: B_def)
        then have "N < 54"
          by (simp only: power_strict_increasing_iff [of "2::int"] one_less_numeral_iff
              semiring_norm)
        define p where "p = N - 1"
        have p: "1 \<le> p" "p \<le> 52" "N - K = p"
          using KN K1 \<open>N < 54\<close> by (simp_all add: p_def)
        define d where "d = M - 2 ^ 53"
        have d: "0 \<le> d" "d < H" using M53 \<open>M < 2 ^ 53 + H\<close> by (simp_all add: d_def)
        have Dp: "D = H" by (simp add: D_def H_def p K1)
        define G :: int where "G = 2 ^ (52 - p)"
        have G: "(2::int) ^ 52 = G * H"
          using p by (simp add: G_def H_def p_def flip: power_add)
        have "M = 2 * 2 ^ 52 + d" by (simp add: d_def)
        then have "q0 = 2 ^ 52 + d div 2" by (simp add: q0_def K1)
        then have q0G: "q0 = G * H + d div 2" using G by simp
        define H2 :: int where "H2 = 2 ^ (p - 1)"
        have H2: "H = 2 * H2" using p by (simp add: H_def H2_def p_def flip: power_Suc)
        from d H2 have d2: "0 \<le> d div 2" "d div 2 < H2" by simp_all
        with H2 have small: "0 \<le> d div 2 + 1" "d div 2 + 1 < H" by simp_all
        have "(q0 + 1) div H = (d div 2 + 1 + G * H) div H"
          by (simp add: q0G algebra_simps)
        also have "\<dots> = G + (d div 2 + 1) div H"
          using H(1) by simp
        also have "(d div 2 + 1) div H = 0"
          using small by (simp add: div_pos_pos_trivial)
        finally have tG: "t = G" using t' Dp by simp
        have "q0 div H = (d div 2 + G * H) div H"
          by (simp add: q0G algebra_simps)
        also have "\<dots> = G + (d div 2) div H"
          using H(1) by simp
        also have "(d div 2) div H = 0"
          using d2 H2 by (simp add: div_pos_pos_trivial)
        finally have "n = G" using q0 Dp by simp
        with tG have "t = n" by simp
        with lower upper show ?thesis by (simp add: n_def B_def)
      qed
    qed
  qed
  with Mpos K KN show ?thesis by (simp add: n_def B_def)
qed

lemma mInterval_initializer_finite:
  fixes m e :: int
  defines "n \<equiv> \<lfloor>of_int m * 2 powi e + 1 / 2 :: real\<rfloor>"
  assumes m: "\<bar>m\<bar> < 2 ^ 53"
      and lower: "- (2 ^ 31) \<le> n"
      and upper: "n < 2 ^ 31"
  shows "mInterval_initializer (Finite m e) = Some (max 1 n)"
proof -
  define E where "E = min e (- 1)"
  define M where "M = m * 2 ^ nat (e - E) + 1 * 2 ^ nat (- 1 - E)"
  have sum: "(of_int M * 2 powi E :: real) = of_int m * 2 powi e + 1 / 2"
    unfolding M_def E_def by (rule add_half_exact)
  then have n: "n = \<lfloor>of_int M * 2 powi E :: real\<rfloor>" by (simp add: n_def)
  have add: "double_add (Finite m e) (Finite 1 (- 1)) = round_to_double M E"
    by (simp add: M_def E_def Let_def)
  show ?thesis
  proof (cases "bitlen \<bar>M\<bar> \<le> 53")
    case True
    with add have "double_add (Finite m e) (Finite 1 (- 1)) = Finite M E"
      by (simp add: round_to_double_exact)
    with lower upper show ?thesis
      unfolding mInterval_initializer_def n
      by (simp only: double_to_int_floor_d) simp
  next
    case big: False
    have e: "e \<le> - 1"
    proof (rule ccontr)
      assume "\<not> e \<le> - 1"
      then have E: "E = - 1" by (simp add: E_def)
      have "\<lfloor>of_int M * 2 powi (- 1) :: real\<rfloor> = M div 2"
        by (simp only: floor_dyadic) simp
      with n E have "n = M div 2" by simp
      with lower upper have "\<bar>M\<bar> < 2 ^ 53" by simp
      then have "bitlen \<bar>M\<bar> \<le> 53" by (simp add: bitlen_le_iff_power)
      with big show False by simp
    qed
    define N where "N = nat (- e)"
    from e have N: "1 \<le> N" "e = - int N" by (simp_all add: N_def)
    from e have E: "E = e" by (simp add: E_def)
    from e have "nat (- 1 - e) = N - 1" by (simp add: N_def)
    then have M: "M = m + 2 ^ (N - 1)" by (simp add: M_def E)
    from n e have nM: "n = M div 2 ^ N" by (simp add: floor_dyadic E N_def)
    define K where "K = nat (bitlen M - 53)"
    define t where "t = round_half_even M K div 2 ^ (N - K)"
    from rounded_floor_core [OF m N(1) M big] lower upper
    have core: "0 < M" "bitlen M - 53 = int K" "0 < K" "K < N"
      "- (2 ^ 31) \<le> t" "t < 2 ^ 31" "max 1 t = max 1 n"
      by (simp_all add: nM K_def t_def)
    from core(4) N have "E + int K + 1 \<le> 971" by (simp add: E)
    from round_to_double_rounded [OF core(1,2,3) this]
    obtain q' e' where r: "round_to_double M E = Finite q' e'"
      and v: "(of_int q' * 2 powi e' :: real) = of_int (round_half_even M K) * 2 powi (E + int K)"
      by blast
    from core(4) N have neg: "\<not> 0 \<le> E + int K" "nat (- (E + int K)) = N - K"
      by (simp_all add: E)
    have "\<lfloor>of_int q' * 2 powi e' :: real\<rfloor> = t"
      by (simp only: v floor_dyadic neg if_False t_def)
    with add r core show ?thesis
      unfolding mInterval_initializer_def
      by (simp only: double_to_int_floor_d) simp
  qed
qed

lemma SampleContext_no_Sleep:
  "SampleContext arch E gPS ti f w = (evs, w') \<Longrightarrow> EvSleep i \<notin> set evs"
  using SampleContext_outcomes [of ti arch E gPS f w]
  by (auto simp: quiet_def)

lemma Run_for_body_no_Sleep:
  assumes b: "Run_for_body arch E gPS ti f w = (eb, fb, wb)"
  shows "EvSleep i \<notin> set eb"
proof -
  from Run_for_body_outcomes [OF b]
  consider (skip) "eb = []"
    | (dup) "eb = [EvDuplicateLastSample (ThreadId ti) (StartTime gPS) True]"
    | (full) dups w1 evs where
        "dups = [] \<or> dups = [EvDuplicateLastSample (ThreadId ti) (StartTime gPS) False]"
        "SampleContext arch E gPS ti f w1 = (evs, wb)"
        "eb = dups @ [EvUpdateThreadResponsiveness ti] @ evs"
    by blast
  then show ?thesis
  proof cases
    case full
    from SampleContext_no_Sleep [OF full(2)] full(1,3) show ?thesis by auto
  qed simp_all
qed

lemma Run_for_no_Sleep:
  "Run_for arch E gPS ts f w = (evs, f', w') \<Longrightarrow> EvSleep i \<notin> set evs"
proof (induction ts arbitrary: f w evs f' w')
  case Nil
  then show ?case by simp
next
  case (Cons a ts)
  obtain eb fb wb where b: "Run_for_body arch E gPS a f w = (eb, fb, wb)"
    by (cases "Run_for_body arch E gPS a f w") auto
  obtain er fr wr where r: "Run_for arch E gPS ts fb wb = (er, fr, wr)"
    by (cases "Run_for arch E gPS ts fb wb") auto
  from Cons.prems b r have "evs = eb @ er" by simp
  with Run_for_body_no_Sleep [OF b] Cons.IH [OF r] show ?case by simp
qed

lemma Run_pass_Sleep:
  assumes "EvSleep i \<in> set (fst (snd (Run_pass arch E this w)))"
  shows "i = mInterval this"
proof -
  obtain gPS w1 where l: "AutoLock E w = (gPS, w1)"
    by (cases "AutoLock E w") auto
  obtain evs f' w2 where r:
    "Run_for arch E gPS (Threads gPS) True (deleteExpiredStoredMarkers E w1) = (evs, f', w2)"
    by (cases "Run_for arch E gPS (Threads gPS) True (deleteExpiredStoredMarkers E w1)") auto
  from Run_for_no_Sleep [OF r] have "EvSleep i \<notin> set evs" .
  with assms l r show ?thesis
    by (auto simp: Run_pass_def Let_def split: if_splits)
qed

text \<open>
  C8, as stated, fails: the interval \<open>2^31\<close> ms is a double, and converting
  \<open>floor(2^31 + 0.5)\<close> to \<open>int\<close> has no defined result, so no interval is
  stored and no sampler is built.
\<close>

theorem mInterval_rounds_to_nearest_counterexample:
  "is_double (Finite (2 ^ 31) 0) \<and> is_finite (Finite (2 ^ 31) 0) \<and>
   valof (Finite (2 ^ 31) 0) = 2147483648 \<and>
   mInterval_initializer (Finite (2 ^ 31) 0) = None \<and>
   SamplerThread_new E_demo 1 (Finite (2 ^ 31) 0) 0 = (Inl UndefinedConversion, [], 0)"
proof -
  have "bitlen \<bar>2 ^ 31 * 2 ^ nat (0 - min 0 (- 1)) + 1 * 2 ^ nat (- 1 - min 0 (- 1))\<bar> \<le> 53"
    by (simp add: bitlen_le_iff_power)
  then have "double_add (Finite (2 ^ 31) 0) (Finite 1 (- 1)) = Finite (2 ^ 32 + 1) (- 1)"
    by (simp add: round_to_double_exact)
  then have init: "mInterval_initializer (Finite (2 ^ 31) 0) = None"
    by (simp add: mInterval_initializer_def)
  then show ?thesis by (simp add: SamplerThread_new_def)
qed

text \<open>
  C8, amended. For every finite double \<open>aInterval\<close> for which
  \<open>floor(aInterval + 0.5)\<close> (computed exactly) fits in a 32-bit \<open>int\<close>, the
  initialiser stores \<open>max(1, floor(aInterval + 0.5))\<close>, where
  \<open>floor(aInterval + 0.5)\<close> is an integer nearest to \<open>aInterval\<close> (at most one
  half away; halves go up). A sampler built from \<open>aInterval\<close> holds that value,
  and it is the argument of every \<open>timeBeginPeriod\<close> of the constructor, of every
  \<open>timeEndPeriod\<close> of \<open>Stop\<close> and of every \<open>Sleep\<close> of \<open>Run\<close>.
\<close>

theorem mInterval_rounds_to_nearest:
  fixes E :: "'w env"
  assumes dbl: "is_double aInterval" and fin: "is_finite aInterval"
      and lower: "- (2 ^ 31) \<le> \<lfloor>valof aInterval + 1 / 2\<rfloor>"
      and upper: "\<lfloor>valof aInterval + 1 / 2\<rfloor> < 2 ^ 31"
  shows "mInterval_initializer aInterval = Some (max 1 \<lfloor>valof aInterval + 1 / 2\<rfloor>) \<and>
         \<bar>of_int \<lfloor>valof aInterval + 1 / 2\<rfloor> - valof aInterval\<bar> \<le> 1 / 2 \<and>
         (SamplerThread_new E aActivityGeneration aInterval w = (Inr this, evs, w') \<longrightarrow>
            mInterval this = max 1 \<lfloor>valof aInterval + 1 / 2\<rfloor> \<and>
            (\<forall>i. EvTimeBeginPeriod i \<in> set evs \<longrightarrow> i = mInterval this) \<and>
            (\<forall>i v. EvTimeEndPeriod i \<in> set (fst (Stop E this v)) \<longrightarrow> i = mInterval this) \<and>
            (\<forall>i arch v. EvSleep i \<in> set (fst (snd (Run_pass arch E this v)))
                \<longrightarrow> i = mInterval this))"
proof -
  from fin obtain m e where a: "aInterval = Finite m e" by (cases aInterval) auto
  with dbl have m: "\<bar>m\<bar> < 2 ^ 53" by simp
  from lower upper have init:
    "mInterval_initializer aInterval = Some (max 1 \<lfloor>valof aInterval + 1 / 2\<rfloor>)"
    unfolding a valof.simps by (rule mInterval_initializer_finite [OF m])
  have near: "\<bar>of_int \<lfloor>valof aInterval + 1 / 2\<rfloor> - valof aInterval\<bar> \<le> 1 / 2"
    by linarith
  have use: "mInterval this = max 1 \<lfloor>valof aInterval + 1 / 2\<rfloor> \<and>
            (\<forall>i. EvTimeBeginPeriod i \<in> set evs \<longrightarrow> i = mInterval this) \<and>
            (\<forall>i v. EvTimeEndPeriod i \<in> set (fst (Stop E this v)) \<longrightarrow> i = mInterval this) \<and>
            (\<forall>i arch v. EvSleep i \<in> set (fst (snd (Run_pass arch E this v)))
                \<longrightarrow> i = mInterval this)"
    if new: "SamplerThread_new E aActivityGeneration aInterval w = (Inr this, evs, w')"
  proof -
    from new init have "mInterval this = max 1 \<lfloor>valof aInterval + 1 / 2\<rfloor>"
      "\<forall>i. EvTimeBeginPeriod i \<in> set evs \<longrightarrow> i = mInterval this"
      by (auto simp: SamplerThread_new_def Let_def split: prod.splits if_splits)
    moreover have "\<forall>i v. EvTimeEndPeriod i \<in> set (fst (Stop E this v)) \<longrightarrow> i = mInterval this"
      by (auto simp: Stop_def)
    moreover have "\<forall>i arch v. EvSleep i \<in> set (fst (snd (Run_pass arch E this v)))
                \<longrightarrow> i = mInterval this"
      by (intro allI impI) (rule Run_pass_Sleep)
    ultimately show ?thesis by blast
  qed
  from init near use show ?thesis by blast
qed

text \<open>An interval of 2.5 ms is stored as 3.\<close>

theorem mInterval_rounds_to_nearest_witness:
  "is_double (Finite 5 (- 1)) \<and> is_finite (Finite 5 (- 1)) \<and>
   valof (Finite 5 (- 1)) = 5 / 2 \<and>
   mInterval_initializer (Finite 5 (- 1)) = Some 3 \<and>
   SamplerThread_new E_demo 1 (Finite 5 (- 1)) 0
     = (Inr demo_sampler, [EvTimeBeginPeriod 3, EvBeginThread 500], 2) \<and>
   mInterval demo_sampler = 3"
proof -
  have dbl: "is_double (Finite 5 (- 1))" and fin: "is_finite (Finite 5 (- 1))" by simp_all
  have v: "valof (Finite 5 (- 1)) = 5 / 2" by simp
  have fl: "\<lfloor>valof (Finite 5 (- 1)) + 1 / 2\<rfloor> = 3" by (simp add: v)
  have lower: "- (2 ^ 31) \<le> \<lfloor>valof (Finite 5 (- 1)) + 1 / 2\<rfloor>"
   and upper: "\<lfloor>valof (Finite 5 (- 1)) + 1 / 2\<rfloor> < 2 ^ 31"
    by (simp_all only: fl) simp_all
  note th = mInterval_rounds_to_nearest [OF dbl fin lower upper, unfolded fl,
      of E_demo 1 0 demo_sampler "[EvTimeBeginPeriod 3, EvBeginThread 500]" 2]
  from th have init: "mInterval_initializer (Finite 5 (- 1)) = Some 3" by simp
  have new: "SamplerThread_new E_demo 1 (Finite 5 (- 1)) 0
     = (Inr demo_sampler, [EvTimeBeginPeriod 3, EvBeginThread 500], 2)"
    by (simp add: SamplerThread_new_def init E_demo_def demo_sampler_def)
  from th new have "mInterval demo_sampler = 3" by simp
  with dbl fin v init new show ?thesis by simp
qed

subsection \<open>A thread without a handle\<close>

text \<open>
  C9. Let \<open>OpenThread\<close> have failed (returned null) when the platform data of
  \<open>info\<close> was allocated. Then every call of \<open>SampleContext\<close> on \<open>info\<close> makes no
  call at all (no suspend, no context read, no \<open>Tick\<close>) and leaves the world as it
  is; and no sample of \<open>info\<close> is handed to \<open>Tick\<close> in any pass over any list
  of threads, nor in any number of trips through the loop of \<open>Run\<close>.
\<close>

theorem SampleContext_null_handle_noop:
  fixes E :: "'w env"
  assumes failed: "fst (OpenThread E aThreadId w0) = nullptr"
      and pd: "GetPlatformData info = fst (AllocPlatformData E aThreadId w0)"
  shows "SampleContext arch E gPS info isFirstProfiledThread w = ([], w) \<and>
         (\<forall>s. EvTick s \<in> set (fst (Run_for arch E gPS threads isFirstProfiledThread w))
                \<longrightarrow> threadInfo s \<noteq> info) \<and>
         (\<forall>s. EvTick s \<in> set (fst (Run_passes arch E this n [] w)) \<longrightarrow> threadInfo s \<noteq> info)"
proof -
  from failed pd have null: "GetThreadHandle (GetPlatformData info) = nullptr"
    by (simp add: AllocPlatformData_def GetThreadHandle_def split: prod.splits)
  then have "SampleContext arch E gPS info isFirstProfiledThread w = ([], w)"
    by (simp add: SampleContext_def)
  moreover have "\<forall>s. EvTick s \<in> set (fst (Run_for arch E gPS threads isFirstProfiledThread w))
                \<longrightarrow> threadInfo s \<noteq> info"
    using null by (auto dest!: Run_for_ticks)
  moreover have "\<forall>s. EvTick s \<in> set (fst (Run_passes arch E this n [] w))
                \<longrightarrow> threadInfo s \<noteq> info"
    using null by (auto dest!: Run_passes_ticks)
  ultimately show ?thesis by blast
qed

text \<open>\<open>OpenThread\<close> fails for thread 3.\<close>

theorem SampleContext_null_handle_noop_witness:
  "fst (OpenThread E_demo 3 0) = nullptr \<and>
   GetPlatformData (demo_thread 3 False nullptr) = fst (AllocPlatformData E_demo 3 0) \<and>
   SampleContext GP_ARCH_amd64 E_demo (demo_PS []) (demo_thread 3 False nullptr) True 0 = ([], 0) \<and>
   (\<nexists>s. EvTick s \<in> set (fst (Run_for GP_ARCH_amd64 E_demo (demo_PS [])
                 [demo_thread 3 False nullptr, demo_thread 1 False 101] True 0)) \<and>
        threadInfo s = demo_thread 3 False nullptr)"
proof -
  have failed: "fst (OpenThread E_demo 3 0) = nullptr"
    by (simp add: E_demo_def)
  have pd: "GetPlatformData (demo_thread 3 False nullptr) = fst (AllocPlatformData E_demo 3 0)"
    by (simp add: E_demo_def demo_thread_def AllocPlatformData_def)
  from SampleContext_null_handle_noop [OF failed pd, of GP_ARCH_amd64 "demo_PS []" True 0
      "[demo_thread 3 False nullptr, demo_thread 1 False 101]"] failed pd
  show ?thesis by blast
qed

subsection \<open>The two ways of reading the registers\<close>



end
